theory Spec2Isabelle
  imports Main "HOL-Library.Sublist"
begin

section \<open>Strings of the source language\<close>

text \<open>
  A string of the source is a sequence of UTF-16 code units, and \<open>trim\<close>, \<open>split\<close> and
  \<open>toString\<close> work on code units. A code unit is modelled as a natural number; \<open>js\<close>
  turns an ASCII literal into its code units.
\<close>

type_synonym jsstring = "nat list"

definition js :: "string \<Rightarrow> jsstring" where
  "js s = map of_char s"

text \<open>
  \<open>String.prototype.trim\<close> removes the WhiteSpace and LineTerminator code points of the
  language standard from both ends: TAB, LF, VT, FF, CR, SP, NBSP, U+1680, U+2000 to U+200A,
  U+2028, U+2029, U+202F, U+205F, U+3000 and U+FEFF.
\<close>

definition is_ws :: "nat \<Rightarrow> bool" where
  "is_ws c = (c = 9 \<or> c = 10 \<or> c = 11 \<or> c = 12 \<or> c = 13 \<or> c = 32 \<or> c = 160 \<or> c = 5760
     \<or> (8192 \<le> c \<and> c \<le> 8202) \<or> c = 8232 \<or> c = 8233 \<or> c = 8239 \<or> c = 8287
     \<or> c = 12288 \<or> c = 65279)"

definition trim :: "jsstring \<Rightarrow> jsstring" where
  "trim s = rev (dropWhile is_ws (rev (dropWhile is_ws s)))"

text \<open>\<open>s.split(",")\<close>: the pieces between the commas (code unit 44), empty pieces kept.\<close>

fun split_comma :: "jsstring \<Rightarrow> jsstring list" where
  "split_comma [] = [[]]"
| "split_comma (c # cs) =
     (if c = 44 then [] # split_comma cs
      else (case split_comma cs of
              [] \<Rightarrow> [[c]]
            | p # ps \<Rightarrow> (c # p) # ps))"

text \<open>
  \<open>pieces.join(",")\<close>, the inverse of splitting; it is used to say what \<open>split_comma\<close>
  computes.
\<close>

fun join_comma :: "jsstring list \<Rightarrow> jsstring" where
  "join_comma [] = []"
| "join_comma [p] = p"
| "join_comma (p # q # ps) = p @ 44 # join_comma (q # ps)"

text \<open>
  \<open>Number.prototype.toString\<close> on an integer below \<open>10^21\<close> in absolute value (every
  clock reading is): the decimal digits, most significant first, after a minus sign (code
  unit 45) for a negative number.
\<close>

fun digits :: "nat \<Rightarrow> jsstring" where
  "digits n = (if n < 10 then [48 + n] else digits (n div 10) @ [48 + n mod 10])"

declare digits.simps [simp del]

definition toString :: "int \<Rightarrow> jsstring" where
  "toString n = (if n < 0 then 45 # digits (nat (- n)) else digits (nat n))"

text \<open>The number a sequence of decimal digits stands for.\<close>

definition digits_value :: "jsstring \<Rightarrow> nat" where
  "digits_value ds = foldl (\<lambda>a d. 10 * a + (d - 48)) 0 ds"

section \<open>Data model\<close>

text \<open>
  A \<open>Date\<close> object holds a time value in milliseconds, or NaN when it was built from a
  string that is not a date. Relational comparison converts both sides to their time values,
  and every comparison with NaN is false.
\<close>

datatype date = Date int | InvalidDate

fun date_le :: "date \<Rightarrow> date \<Rightarrow> bool" where
  "date_le (Date a) (Date b) = (a \<le> b)"
| "date_le _ _ = False"

datatype NotificationPermission = Default | Granted | Denied

text \<open>
  The interface \<open>Todo\<close>. The fields \<open>dueDate\<close> and \<open>reminderShown\<close> are optional in the
  source (\<open>None\<close> is \<open>undefined\<close>). The field \<open>id\<close> is named \<open>id_todo\<close> here.
\<close>

record Todo =
  id_todo :: jsstring
  title :: jsstring
  completed :: bool
  tags :: "jsstring list"
  color :: jsstring
  dueDate :: "date option"
  reminderShown :: "bool option"

text \<open>
  The state of the component \<open>TodoApp\<close>: its eight state variables, the pending timeout of
  the dismissal effect (the time at which it is due, \<open>None\<close> when no timeout is pending),
  and the bodies of the system notifications dispatched so far.
\<close>

record state =
  todos :: "Todo list"
  newTitle :: jsstring
  newTags :: jsstring
  newColor :: jsstring
  newDueDate :: jsstring
  newDueTime :: jsstring
  notifications :: "jsstring list"
  notificationPermission :: NotificationPermission
  dismissTimer :: "int option"
  systemNotifications :: "jsstring list"

definition init :: state where
  "init = \<lparr>todos = [], newTitle = [], newTags = [], newColor = js ''gray'', newDueDate = [],
     newDueTime = [], notifications = [], notificationPermission = Default,
     dismissTimer = None, systemNotifications = []\<rparr>"

section \<open>Operations\<close>

text \<open>
  Each operation below is one state transition of the component. A state updater runs
  once per call, on the state at that moment, and the \<open>Notification\<close> constructor
  returns. \<open>addTodo\<close> reads its inputs before it awaits the permission request and
  updates the state after it; the transition below is the whole call, with the clock read
  at the moment the task is built.
\<close>

subsection \<open>The reminder monitor\<close>

text \<open>
  The condition of \<open>checkReminders\<close>:
  \<open>todo.dueDate && !todo.reminderShown && !todo.completed && todo.dueDate <= now\<close>.
\<close>

definition due_now :: "int \<Rightarrow> Todo \<Rightarrow> bool" where
  "due_now now todo =
     (case dueDate todo of
        None \<Rightarrow> False
      | Some d \<Rightarrow> reminderShown todo \<noteq> Some True \<and> \<not> completed todo \<and> date_le d (Date now))"

definition message :: "Todo \<Rightarrow> jsstring" where
  "message todo = js ''Reminder: '' @ title todo"

text \<open>
  The callback of \<open>prevTodos.map\<close> returns the entry of the new list and, on the way,
  appends to the notification queue and dispatches a system notification when the
  permission is granted. The queue and the dispatched notifications are threaded through
  the traversal, in the order of the list.
\<close>

fun checkReminders_map ::
  "NotificationPermission \<Rightarrow> int \<Rightarrow> Todo list \<Rightarrow> jsstring list \<Rightarrow> jsstring list
     \<Rightarrow> Todo list \<times> jsstring list \<times> jsstring list" where
  "checkReminders_map p now [] ns sys = ([], ns, sys)"
| "checkReminders_map p now (todo # rest) ns sys =
     (if due_now now todo then
        (case checkReminders_map p now rest (ns @ [message todo])
                (if p = Granted then sys @ [title todo] else sys) of
           (rest', ns', sys') \<Rightarrow> (todo\<lparr>reminderShown := Some True\<rparr> # rest', ns', sys'))
      else
        (case checkReminders_map p now rest ns sys of
           (rest', ns', sys') \<Rightarrow> (todo # rest', ns', sys')))"

text \<open>
  The dismissal effect depends on \<open>notifications\<close>: each time the queue is replaced, the
  pending timeout is cleared, and a new one of 5000 ms is started when the new queue is not
  empty.
\<close>

definition dismissEffect :: "int \<Rightarrow> jsstring list \<Rightarrow> int option" where
  "dismissEffect now ns = (if length ns > 0 then Some (now + 5000) else None)"

text \<open>
  One call of \<open>checkReminders\<close> at clock reading \<open>now\<close>. The queue is replaced only when
  a message was appended; otherwise the pending timeout stays as it is.
\<close>

definition checkReminders :: "int \<Rightarrow> state \<Rightarrow> state" where
  "checkReminders now s =
     (case checkReminders_map (notificationPermission s) now (todos s) (notifications s)
             (systemNotifications s) of
        (ts, ns, sys) \<Rightarrow>
          s\<lparr>todos := ts, notifications := ns, systemNotifications := sys,
            dismissTimer := (if ns = notifications s then dismissTimer s
                             else dismissEffect now ns)\<rparr>)"

text \<open>
  The callback of the dismissal timeout, \<open>prev.slice(1)\<close>, run at clock reading \<open>now\<close>. A
  timeout runs no earlier than it is due; at any other moment nothing happens.
\<close>

definition dismiss :: "int \<Rightarrow> state \<Rightarrow> state" where
  "dismiss now s =
     (case dismissTimer s of
        None \<Rightarrow> s
      | Some due \<Rightarrow>
          if due \<le> now then
            s\<lparr>notifications := drop 1 (notifications s),
              dismissTimer := dismissEffect now (drop 1 (notifications s))\<rparr>
          else s)"

text \<open>A dismissal timeout is pending exactly when the queue is not empty.\<close>

definition inv_timer :: "state \<Rightarrow> bool" where
  "inv_timer s = ((dismissTimer s = None) = (notifications s = []))"

subsection \<open>The task store\<close>

text \<open>
  \<open>requestNotificationPermission\<close>: \<open>reply\<close> is \<open>None\<close> when the platform has no
  \<open>Notification\<close>, and otherwise what \<open>Notification.requestPermission()\<close> resolves to.
\<close>

definition requestNotificationPermission ::
  "NotificationPermission option \<Rightarrow> NotificationPermission \<Rightarrow> NotificationPermission" where
  "requestNotificationPermission reply p =
     (case reply of
        None \<Rightarrow> p
      | Some permission \<Rightarrow> if p = Default then permission else p)"

text \<open>The tag list of \<open>addTodo\<close>: split on commas, trim each piece, keep the non-empty ones.\<close>

definition parse_tags :: "jsstring \<Rightarrow> jsstring list" where
  "parse_tags raw = filter (\<lambda>tag. tag \<noteq> []) (map trim (split_comma raw))"

text \<open>
  \<open>addTodo\<close>, with the \<open>Date\<close> constructor on a string as the parameter \<open>mkDate\<close> and
  \<open>now\<close> the value of \<open>Date.now()\<close>.
\<close>

definition addTodo ::
  "(jsstring \<Rightarrow> date) \<Rightarrow> int \<Rightarrow> NotificationPermission option \<Rightarrow> state \<Rightarrow> state" where
  "addTodo mkDate now reply s =
     (if trim (newTitle s) = [] then s
      else
        let due = (if newDueDate s \<noteq> [] \<and> newDueTime s \<noteq> []
                   then Some (mkDate (newDueDate s @ js ''T'' @ newDueTime s)) else None);
            perm = (if due \<noteq> None
                    then requestNotificationPermission reply (notificationPermission s)
                    else notificationPermission s);
            todo = \<lparr>id_todo = toString now, title = trim (newTitle s), completed = False,
                    tags = parse_tags (newTags s), color = newColor s, dueDate = due,
                    reminderShown = Some False\<rparr>
        in s\<lparr>todos := todos s @ [todo], newTitle := [], newTags := [],
             newColor := js ''gray'', newDueDate := [], newDueTime := [],
             notificationPermission := perm\<rparr>)"

definition toggle_entry :: "jsstring \<Rightarrow> Todo \<Rightarrow> Todo" where
  "toggle_entry i todo = (if id_todo todo = i then todo\<lparr>completed := \<not> completed todo\<rparr> else todo)"

definition toggleTodo :: "jsstring \<Rightarrow> state \<Rightarrow> state" where
  "toggleTodo i s = s\<lparr>todos := map (toggle_entry i) (todos s)\<rparr>"

definition deleteTodo :: "jsstring \<Rightarrow> state \<Rightarrow> state" where
  "deleteTodo i s = s\<lparr>todos := filter (\<lambda>todo. id_todo todo \<noteq> i) (todos s)\<rparr>"

subsection \<open>Executions\<close>

text \<open>
  What can happen to the component: an edit of an input field, a call of one of the three
  handlers, a tick of the monitor's interval, the dismissal timeout.
\<close>

datatype event =
    SetNewTitle jsstring
  | SetNewTags jsstring
  | SetNewColor jsstring
  | SetNewDueDate jsstring
  | SetNewDueTime jsstring
  | Add int "NotificationPermission option"
  | Toggle jsstring
  | Delete jsstring
  | Tick int
  | Dismiss int

fun step :: "(jsstring \<Rightarrow> date) \<Rightarrow> event \<Rightarrow> state \<Rightarrow> state" where
  "step mkDate (SetNewTitle v) s = s\<lparr>newTitle := v\<rparr>"
| "step mkDate (SetNewTags v) s = s\<lparr>newTags := v\<rparr>"
| "step mkDate (SetNewColor v) s = s\<lparr>newColor := v\<rparr>"
| "step mkDate (SetNewDueDate v) s = s\<lparr>newDueDate := v\<rparr>"
| "step mkDate (SetNewDueTime v) s = s\<lparr>newDueTime := v\<rparr>"
| "step mkDate (Add now reply) s = addTodo mkDate now reply s"
| "step mkDate (Toggle i) s = toggleTodo i s"
| "step mkDate (Delete i) s = deleteTodo i s"
| "step mkDate (Tick now) s = checkReminders now s"
| "step mkDate (Dismiss now) s = dismiss now s"

fun run :: "(jsstring \<Rightarrow> date) \<Rightarrow> event list \<Rightarrow> state \<Rightarrow> state" where
  "run mkDate [] s = s"
| "run mkDate (e # es) s = run mkDate es (step mkDate e s)"

text \<open>The clock readings of the \<open>Add\<close> events of a sequence.\<close>

fun add_times :: "event list \<Rightarrow> int list" where
  "add_times [] = []"
| "add_times (Add now reply # es) = now # add_times es"
| "add_times (e # es) = add_times es"

section \<open>The history of one task\<close>

text \<open>
  Every operation on the task list is a \<open>map\<close>, a \<open>filter\<close> or an append, so what an
  event does to a task of the list depends on that task and the event only. \<open>remind_entry\<close>
  is the value returned by the callback of \<open>checkReminders\<close> and \<open>remind_notes\<close> what it
  appends to the queue; \<open>task_step\<close> is what one event does to one task of the list
  (\<open>None\<close>: the task is removed), \<open>task_run\<close> what a sequence of events does to it,
  \<open>created\<close> the tasks an event appends, \<open>born\<close> the tasks appended during a sequence
  of events, as they are at its end, and \<open>flips\<close> counts the steps at which the task's
  \<open>reminderShown\<close> goes from not true to true.
\<close>

definition remind_entry :: "int \<Rightarrow> Todo \<Rightarrow> Todo" where
  "remind_entry now todo = (if due_now now todo then todo\<lparr>reminderShown := Some True\<rparr> else todo)"

definition remind_notes :: "int \<Rightarrow> Todo \<Rightarrow> jsstring list" where
  "remind_notes now todo = (if due_now now todo then [message todo] else [])"

fun task_step :: "event \<Rightarrow> Todo \<Rightarrow> Todo option" where
  "task_step (Toggle i) todo = Some (toggle_entry i todo)"
| "task_step (Delete i) todo = (if id_todo todo \<noteq> i then Some todo else None)"
| "task_step (Tick now) todo = Some (remind_entry now todo)"
| "task_step _ todo = Some todo"

fun task_run :: "event list \<Rightarrow> Todo \<Rightarrow> Todo option" where
  "task_run [] todo = Some todo"
| "task_run (e # es) todo =
     (case task_step e todo of None \<Rightarrow> None | Some todo' \<Rightarrow> task_run es todo')"

fun created :: "(jsstring \<Rightarrow> date) \<Rightarrow> event \<Rightarrow> state \<Rightarrow> Todo list" where
  "created mkDate (Add now reply) s = drop (length (todos s)) (todos (addTodo mkDate now reply s))"
| "created mkDate _ s = []"

fun born :: "(jsstring \<Rightarrow> date) \<Rightarrow> event list \<Rightarrow> state \<Rightarrow> Todo list" where
  "born mkDate [] s = []"
| "born mkDate (e # es) s =
     List.map_filter (task_run es) (created mkDate e s) @ born mkDate es (step mkDate e s)"

fun flips :: "event list \<Rightarrow> Todo \<Rightarrow> nat" where
  "flips [] todo = 0"
| "flips (e # es) todo =
     (case task_step e todo of
        None \<Rightarrow> 0
      | Some todo' \<Rightarrow>
          (if reminderShown todo \<noteq> Some True \<and> reminderShown todo' = Some True then 1 else 0)
            + flips es todo')"

section \<open>Example values\<close>

definition noDate :: "jsstring \<Rightarrow> date" where
  "noDate v = InvalidDate"

definition todo_a :: Todo where
  "todo_a = \<lparr>id_todo = js ''1'', title = js ''a'', completed = False, tags = [],
     color = js ''gray'', dueDate = Some (Date 0), reminderShown = Some False\<rparr>"

definition todo_b :: Todo where
  "todo_b = \<lparr>id_todo = js ''2'', title = js ''b'', completed = False, tags = [],
     color = js ''red'', dueDate = Some (Date 2500), reminderShown = Some False\<rparr>"

definition state_ab :: state where
  "state_ab = init\<lparr>todos := [todo_a, todo_b]\<rparr>"

definition state_tags :: state where
  "state_tags = init\<lparr>newTitle := js '' x '', newTags := js ''a, ,b ,''\<rparr>"

definition state_blank :: state where
  "state_blank = init\<lparr>newTitle := [32, 12288, 9], newTags := js ''a'', newColor := js ''red'',
     newDueDate := js ''2025-01-01'', newDueTime := js ''10:00''\<rparr>"

section \<open>Splitting and trimming\<close>

lemma split_comma_not_Nil: "split_comma s \<noteq> []"
  by (induction s) (simp_all split: list.splits)

lemma join_split: "join_comma (split_comma s) = s"
proof (induction s)
  case Nil
  show ?case by simp
next
  case (Cons c cs)
  obtain p ps where sp: "split_comma cs = p # ps"
    using split_comma_not_Nil [of cs] by (cases "split_comma cs") auto
  show ?case
  proof (cases "c = 44")
    case True
    then show ?thesis using Cons sp by simp
  next
    case False
    then show ?thesis using Cons sp by (cases ps) simp_all
  qed
qed

lemma split_no_comma: "p \<in> set (split_comma s) \<Longrightarrow> 44 \<notin> set p"
proof (induction s arbitrary: p)
  case Nil
  then show ?case by simp
next
  case (Cons c cs)
  obtain q qs where sp: "split_comma cs = q # qs"
    using split_comma_not_Nil [of cs] by (cases "split_comma cs") auto
  show ?case
  proof (cases "c = 44")
    case True
    then show ?thesis using Cons by auto
  next
    case False
    then show ?thesis using Cons sp by auto
  qed
qed

lemma split_piece: "44 \<notin> set p \<Longrightarrow> split_comma p = [p]"
  by (induction p) simp_all

lemma split_piece_comma: "44 \<notin> set p \<Longrightarrow> split_comma (p @ 44 # r) = p # split_comma r"
  by (induction p) simp_all

lemma split_join:
  "ps \<noteq> [] \<Longrightarrow> \<forall>p \<in> set ps. 44 \<notin> set p \<Longrightarrow> split_comma (join_comma ps) = ps"
proof (induction ps rule: join_comma.induct)
  case 1
  then show ?case by simp
next
  case (2 p)
  then show ?case by (simp add: split_piece)
next
  case (3 p q ps)
  then show ?case by (simp add: split_piece_comma)
qed

lemma rev_dropWhile_split:
  "dropWhile P s = rev (dropWhile P (rev (dropWhile P s))) @ rev (takeWhile P (rev (dropWhile P s)))"
proof -
  have "rev (rev (dropWhile P s)) =
      rev (takeWhile P (rev (dropWhile P s)) @ dropWhile P (rev (dropWhile P s)))"
    by (simp only: takeWhile_dropWhile_id)
  then show ?thesis by (simp only: rev_rev_ident rev_append)
qed

lemma dropWhile_twice_Nil:
  "(dropWhile P (rev (dropWhile P s)) = []) = (dropWhile P s = [])"
proof
  assume a: "dropWhile P (rev (dropWhile P s)) = []"
  show "dropWhile P s = []"
  proof (cases "dropWhile P s")
    case Nil
    then show ?thesis .
  next
    case (Cons x xs)
    then have "\<not> P x" using hd_dropWhile [of P s] by auto
    moreover have "\<forall>c \<in> set (rev (dropWhile P s)). P c"
      using a by (simp only: dropWhile_eq_Nil_conv)
    ultimately show ?thesis using Cons by simp
  qed
next
  assume "dropWhile P s = []"
  then show "dropWhile P (rev (dropWhile P s)) = []" by (simp only: rev.simps dropWhile.simps)
qed

lemma trim_Nil_iff: "(trim s = []) = (\<forall>c \<in> set s. is_ws c)"
proof -
  have A: "(trim s = []) = (dropWhile is_ws (rev (dropWhile is_ws s)) = [])"
    by (simp only: trim_def rev_is_Nil_conv)
  have C: "(dropWhile is_ws s = []) = (\<forall>c \<in> set s. is_ws c)"
    by (simp only: dropWhile_eq_Nil_conv)
  show ?thesis by (simp only: A dropWhile_twice_Nil C)
qed

lemma trim_decompose:
  "\<exists>l r. s = l @ trim s @ r \<and> (\<forall>c \<in> set l. is_ws c) \<and> (\<forall>c \<in> set r. is_ws c)"
proof -
  let ?d = "dropWhile is_ws s"
  have 1: "s = takeWhile is_ws s @ ?d" by simp
  have "?d = trim s @ rev (takeWhile is_ws (rev ?d))"
    using rev_dropWhile_split [of is_ws s] by (simp only: trim_def)
  then have "s = takeWhile is_ws s @ trim s @ rev (takeWhile is_ws (rev ?d))"
    using 1 by simp
  moreover have "\<forall>c \<in> set (takeWhile is_ws s). is_ws c" by (auto dest: set_takeWhileD)
  moreover have "\<forall>c \<in> set (rev (takeWhile is_ws (rev ?d))). is_ws c"
    by (auto dest: set_takeWhileD)
  ultimately show ?thesis by blast
qed

lemma trim_ends: "trim s \<noteq> [] \<Longrightarrow> \<not> is_ws (hd (trim s)) \<and> \<not> is_ws (last (trim s))"
proof -
  assume ne: "trim s \<noteq> []"
  let ?d = "dropWhile is_ws s"
  let ?e = "dropWhile is_ws (rev ?d)"
  have e: "?e \<noteq> []" using ne by (simp add: trim_def)
  then have "\<not> is_ws (hd ?e)" using hd_dropWhile [of is_ws "rev ?d"] by simp
  then have l: "\<not> is_ws (last (trim s))" using e by (simp add: trim_def last_rev)
  have d: "?d \<noteq> []" using e dropWhile_twice_Nil [of is_ws s] by blast
  then have hd: "\<not> is_ws (hd ?d)" using hd_dropWhile [of is_ws s] by simp
  have "?d = rev ?e @ rev (takeWhile is_ws (rev ?d))"
    by (rule rev_dropWhile_split)
  then have "hd ?d = hd (rev ?e)" using e by (metis hd_append2 rev_is_Nil_conv)
  then have "\<not> is_ws (hd (trim s))" using hd by (simp add: trim_def)
  then show ?thesis using l by simp
qed

section \<open>Decimal rendering\<close>

lemma digits_value_digits: "digits_value (digits n) = n"
proof (induction n rule: digits.induct)
  case (1 n)
  show ?case
  proof (cases "n < 10")
    case True
    then show ?thesis by (simp add: digits.simps [of n] digits_value_def)
  next
    case False
    then have "digits_value (digits n) = 10 * digits_value (digits (n div 10)) + n mod 10"
      by (simp add: digits.simps [of n] digits_value_def)
    then show ?thesis using 1 False by simp
  qed
qed

lemma digits_inj: "digits m = digits n \<Longrightarrow> m = n"
  by (metis digits_value_digits)

lemma digits_ge_48: "c \<in> set (digits n) \<Longrightarrow> 48 \<le> c"
proof (induction n rule: digits.induct)
  case (1 n)
  show ?case
  proof (cases "n < 10")
    case True
    then show ?thesis using 1(2) by (simp add: digits.simps [of n])
  next
    case False
    then show ?thesis using 1 by (auto simp: digits.simps [of n])
  qed
qed

lemma toString_inj: "toString a = toString b \<Longrightarrow> a = b"
proof -
  assume eq: "toString a = toString b"
  have no_minus: "45 # ds \<noteq> digits n" for ds n
  proof
    assume "45 # ds = digits n"
    then have "45 \<in> set (digits n)" by (metis list.set_intros(1))
    then have "(48::nat) \<le> 45" by (rule digits_ge_48)
    then show False by simp
  qed
  show ?thesis
  proof (cases "a < 0")
    case True
    show ?thesis
    proof (cases "b < 0")
      case True
      with \<open>a < 0\<close> eq have "nat (- a) = nat (- b)" by (simp add: toString_def digits_inj)
      with True \<open>a < 0\<close> show ?thesis by simp
    next
      case False
      with \<open>a < 0\<close> eq no_minus show ?thesis by (simp add: toString_def)
    qed
  next
    case False
    show ?thesis
    proof (cases "b < 0")
      case True
      with False eq no_minus [of "digits (nat (- b))" "nat a"] show ?thesis
        by (simp add: toString_def)
    next
      case b: False
      with False eq have "nat a = nat b" by (simp add: toString_def digits_inj)
      with False b show ?thesis by simp
    qed
  qed
qed

section \<open>The task list, task by task\<close>

lemma checkReminders_map_eq:
  "checkReminders_map p now ts ns sys =
     (map (remind_entry now) ts, ns @ concat (map (remind_notes now) ts),
      sys @ (if p = Granted then map title (filter (due_now now) ts) else []))"
  by (induction ts arbitrary: ns sys) (simp_all add: remind_entry_def remind_notes_def)

lemma map_filter_Some: "List.map_filter (\<lambda>x. Some (f x)) xs = map f xs"
  by (induction xs) (simp_all add: List.map_filter_simps)

lemma map_filter_append: "List.map_filter f (xs @ ys) = List.map_filter f xs @ List.map_filter f ys"
  by (simp add: List.map_filter_def)

lemma map_filter_comp:
  "List.map_filter g (List.map_filter f xs) =
     List.map_filter (\<lambda>x. case f x of None \<Rightarrow> None | Some y \<Rightarrow> g y) xs"
  by (induction xs) (simp_all add: List.map_filter_simps split: option.splits)

lemma map_filter_delete:
  "List.map_filter (\<lambda>t. if id_todo t \<noteq> i then Some t else None) xs = filter (\<lambda>t. id_todo t \<noteq> i) xs"
  by (induction xs) (simp_all add: List.map_filter_simps)

lemma map_filter_id: "List.map_filter Some xs = xs"
  by (induction xs) (simp_all add: List.map_filter_simps)

lemma todos_checkReminders: "todos (checkReminders now s) = map (remind_entry now) (todos s)"
  by (simp add: checkReminders_def checkReminders_map_eq)

lemma notifications_checkReminders:
  "notifications (checkReminders now s) = notifications s @ concat (map (remind_notes now) (todos s))"
  by (simp add: checkReminders_def checkReminders_map_eq)

lemma todos_dismiss: "todos (dismiss now s) = todos s"
  by (simp add: dismiss_def split: option.splits)

lemma todos_addTodo:
  "todos (addTodo mk now reply s) = todos s @ drop (length (todos s)) (todos (addTodo mk now reply s))"
  by (simp add: addTodo_def Let_def)

lemma tags_addTodo:
  "trim (newTitle s) \<noteq> [] \<Longrightarrow>
     map tags (todos (addTodo mk now reply s)) = map tags (todos s) @ [parse_tags (newTags s)]"
  by (simp add: addTodo_def Let_def)

lemma task_step_keep:
  "task_step (SetNewTitle v) = Some" "task_step (SetNewTags v) = Some"
  "task_step (SetNewColor v) = Some" "task_step (SetNewDueDate v) = Some"
  "task_step (SetNewDueTime v) = Some" "task_step (Add now reply) = Some"
  "task_step (Dismiss now) = Some"
  by (rule ext, simp)+

lemma task_step_change:
  "task_step (Toggle i) = (\<lambda>t. Some (toggle_entry i t))"
  "task_step (Tick now) = (\<lambda>t. Some (remind_entry now t))"
  "task_step (Delete i) = (\<lambda>t. if id_todo t \<noteq> i then Some t else None)"
  by (rule ext, simp)+

lemma task_run_fun:
  "task_run [] = Some"
  "task_run (e # es) = (\<lambda>t. case task_step e t of None \<Rightarrow> None | Some t' \<Rightarrow> task_run es t')"
  by (rule ext, simp)+

lemma todos_step:
  "todos (step mk e s) = List.map_filter (task_step e) (todos s) @ created mk e s"
proof (cases e)
  case (Add now reply)
  then show ?thesis
    using todos_addTodo [of mk now reply s] by (simp add: task_step_keep map_filter_id)
next
  case (Toggle i)
  then show ?thesis by (simp add: toggleTodo_def task_step_change map_filter_Some)
next
  case (Delete i)
  then show ?thesis by (simp add: deleteTodo_def task_step_change map_filter_delete)
next
  case (Tick now)
  then show ?thesis by (simp add: todos_checkReminders task_step_change map_filter_Some)
next
  case (Dismiss now)
  then show ?thesis by (simp add: todos_dismiss task_step_keep map_filter_id)
qed (simp_all add: task_step_keep map_filter_id)

lemma todos_run:
  "todos (run mk es s) = List.map_filter (task_run es) (todos s) @ born mk es s"
proof (induction es arbitrary: s)
  case Nil
  show ?case by (simp add: task_run_fun map_filter_id)
next
  case (Cons e es)
  have "todos (run mk (e # es) s) =
          List.map_filter (task_run es) (todos (step mk e s)) @ born mk es (step mk e s)"
    using Cons.IH [of "step mk e s"] by simp
  also have "List.map_filter (task_run es) (todos (step mk e s)) =
          List.map_filter (task_run (e # es)) (todos s) @
          List.map_filter (task_run es) (created mk e s)"
    by (simp add: todos_step map_filter_append map_filter_comp task_run_fun(2) [of e es])
  finally show ?case by (simp only: born.simps append_assoc)
qed

lemma task_run_id: "task_run es t = Some t' \<Longrightarrow> id_todo t' = id_todo t"
proof (induction es arbitrary: t)
  case Nil
  then show ?case by simp
next
  case (Cons e es)
  then obtain u where u: "task_step e t = Some u" "task_run es u = Some t'"
    by (auto split: option.splits)
  have "id_todo u = id_todo t"
    using u(1) by (cases e) (auto simp: toggle_entry_def remind_entry_def split: if_splits)
  then show ?case using Cons.IH [OF u(2)] by simp
qed

subsection \<open>The reminder flag along a history\<close>

lemma flips_flagged: "reminderShown t = Some True \<Longrightarrow> flips es t = 0"
proof (induction es arbitrary: t)
  case Nil
  show ?case by simp
next
  case (Cons e es)
  show ?case
  proof (cases "task_step e t")
    case None
    then show ?thesis by simp
  next
    case (Some t')
    have "reminderShown t' = Some True"
      using Some Cons.prems
      by (cases e) (auto simp: toggle_entry_def remind_entry_def split: if_splits)
    then show ?thesis using Some Cons.prems Cons.IH [of t'] by simp
  qed
qed

lemma flips_le_1: "flips es t \<le> 1"
proof (induction es arbitrary: t)
  case Nil
  show ?case by simp
next
  case (Cons e es)
  show ?case
  proof (cases "task_step e t")
    case None
    then show ?thesis by simp
  next
    case (Some t')
    show ?thesis
    proof (cases "reminderShown t \<noteq> Some True \<and> reminderShown t' = Some True")
      case True
      then show ?thesis using Some flips_flagged [of t' es] by simp
    next
      case False
      then show ?thesis using Some Cons.IH [of t'] by auto
    qed
  qed
qed

lemma task_step_flag:
  "task_step e t = Some t' \<Longrightarrow> reminderShown t' \<noteq> reminderShown t \<Longrightarrow>
     reminderShown t \<noteq> Some True \<and> reminderShown t' = Some True \<and>
     (\<exists>now d. e = Tick now \<and> dueDate t = Some d \<and> \<not> completed t \<and> date_le d (Date now))"
  by (cases e) (auto simp: toggle_entry_def remind_entry_def due_now_def split: if_splits option.splits)

lemma remind_completed: "completed t \<Longrightarrow> remind_entry now t = t \<and> remind_notes now t = []"
  by (simp add: remind_entry_def remind_notes_def due_now_def split: option.splits)

lemma task_step_completed:
  "completed t \<Longrightarrow> e \<noteq> Toggle (id_todo t) \<Longrightarrow> task_step e t = None \<or> task_step e t = Some t"
  by (cases e) (simp_all add: remind_completed toggle_entry_def)

lemma task_run_completed:
  "completed t \<Longrightarrow> Toggle (id_todo t) \<notin> set es \<Longrightarrow>
     (task_run es t = None \<or> task_run es t = Some t) \<and> flips es t = 0"
proof (induction es)
  case Nil
  show ?case by simp
next
  case (Cons e es)
  then have "task_step e t = None \<or> task_step e t = Some t"
    using task_step_completed [of t e] by auto
  then show ?case using Cons by auto
qed

subsection \<open>The dismissal timeout\<close>

lemma inv_timer_step: "inv_timer s \<Longrightarrow> inv_timer (step mk e s)"
proof (cases e)
  case (Add now reply)
  assume "inv_timer s"
  then show ?thesis using Add by (simp add: inv_timer_def addTodo_def Let_def)
next
  case (Tick now)
  assume "inv_timer s"
  then show ?thesis using Tick
    by (auto simp: inv_timer_def checkReminders_def checkReminders_map_eq dismissEffect_def)
next
  case (Dismiss now)
  assume "inv_timer s"
  then show ?thesis using Dismiss
    by (auto simp: inv_timer_def dismiss_def dismissEffect_def split: option.splits)
qed (simp_all add: inv_timer_def toggleTodo_def deleteTodo_def)

lemma inv_timer_run: "inv_timer s \<Longrightarrow> inv_timer (run mk es s)"
  by (induction es arbitrary: s) (simp_all add: inv_timer_step)

lemma step_queue_frame:
  "(\<forall>now. e \<noteq> Tick now \<and> e \<noteq> Dismiss now) \<Longrightarrow>
     notifications (step mk e s) = notifications s \<and> dismissTimer (step mk e s) = dismissTimer s"
  by (cases e) (simp_all add: addTodo_def Let_def toggleTodo_def deleteTodo_def)

subsection \<open>Identifiers and clock readings\<close>

lemma ids_created:
  "subseq (map id_todo (List.map_filter (task_run es) (created mk e s)))
     (map toString (add_times [e]))"
proof (cases e)
  case (Add now reply)
  show ?thesis
  proof (cases "trim (newTitle s) = []")
    case True
    then show ?thesis using Add by (simp add: addTodo_def List.map_filter_simps)
  next
    case False
    then obtain n where n: "created mk e s = [n]" "id_todo n = toString now"
      using Add by (simp add: addTodo_def Let_def)
    show ?thesis
    proof (cases "task_run es n")
      case None
      then show ?thesis using n Add by (simp add: List.map_filter_simps)
    next
      case (Some n')
      then show ?thesis using n Add task_run_id [OF Some] by (simp add: List.map_filter_simps)
    qed
  qed
qed (simp_all add: List.map_filter_simps)

lemma add_times_Cons: "add_times (e # es) = add_times [e] @ add_times es"
  by (cases e) simp_all

lemma ids_born: "subseq (map id_todo (born mk es s)) (map toString (add_times es))"
proof (induction es arbitrary: s)
  case Nil
  show ?case by simp
next
  case (Cons e es)
  have "subseq (map id_todo (List.map_filter (task_run es) (created mk e s))
                  @ map id_todo (born mk es (step mk e s)))
               (map toString (add_times [e]) @ map toString (add_times es))"
    using ids_created [of es mk e s] Cons.IH [of "step mk e s"] by (rule list_emb_append_mono)
  then show ?case using add_times_Cons [of e es] by simp
qed

lemma ids_distinct_clock:
  "distinct (add_times es) \<Longrightarrow> distinct (map id_todo (todos (run mk es init)))"
proof -
  assume d: "distinct (add_times es)"
  have "inj_on toString (set (add_times es))"
    by (rule inj_onI) (rule toString_inj)
  then have "distinct (map toString (add_times es))" using d by (simp add: distinct_map)
  moreover obtain N where "map id_todo (born mk es init) = nths (map toString (add_times es)) N"
    using ids_born [of mk es init] subseq_conv_nths by blast
  ultimately have "distinct (map id_todo (born mk es init))"
    by (simp only: distinct_nthsI)
  moreover have "todos (run mk es init) = born mk es init"
    using todos_run [of mk es init] by (simp add: init_def List.map_filter_simps)
  ultimately show ?thesis by simp
qed

section \<open>The reminder monitor\<close>

text \<open>
  Claim C1. For every task, \<open>reminderShown\<close> goes from false to true at most once over the
  whole execution; it is set to true only by a monitor tick at which the task has a due
  date, is not completed, and its due date is at or before the clock reading of the tick;
  and nothing sets it back to false.

  The first conjunct says that the tasks after a step are the tasks before it, each as
  \<open>task_step\<close> leaves it, followed by the tasks the step creates; the second, that a task
  is created with \<open>reminderShown\<close> false; the third, that a step which changes a task's
  \<open>reminderShown\<close> is a tick at which the task is due, and changes it from not true to
  true; the fourth, that along any sequence of events a task goes from not true to true at
  most once.
\<close>

theorem reminder_latch:
  "todos (step mk e0 s) = List.map_filter (task_step e0) (todos s) @ created mk e0 s
   \<and> (\<forall>n \<in> set (created mk e0 s). reminderShown n = Some False)
   \<and> (task_step e t = Some t' \<and> reminderShown t' \<noteq> reminderShown t \<longrightarrow>
        reminderShown t \<noteq> Some True \<and> reminderShown t' = Some True \<and>
        (\<exists>now d. e = Tick now \<and> dueDate t = Some d \<and> \<not> completed t \<and> date_le d (Date now)))
   \<and> flips es t0 \<le> 1"
proof -
  have "\<forall>n \<in> set (created mk e0 s). reminderShown n = Some False"
    by (cases e0) (simp_all add: addTodo_def Let_def)
  then show ?thesis
    using todos_step [of mk e0 s] task_step_flag [of e t t'] flips_le_1 [of es t0] by blast
qed

theorem reminder_latch_witness:
  "created noDate (Add 1000 None) (init\<lparr>newTitle := js ''x''\<rparr>) \<noteq> []
   \<and> map reminderShown (created noDate (Add 1000 None) (init\<lparr>newTitle := js ''x''\<rparr>)) =
       [Some False]
   \<and> task_step (Tick 1000) todo_a = Some (todo_a\<lparr>reminderShown := Some True\<rparr>)
   \<and> reminderShown (todo_a\<lparr>reminderShown := Some True\<rparr>) \<noteq> reminderShown todo_a
   \<and> dueDate todo_a = Some (Date 0) \<and> \<not> completed todo_a \<and> date_le (Date 0) (Date 1000)
   \<and> flips [Tick 1000, Toggle (js ''1''), Tick 2000, Toggle (js ''1''), Tick 3000] todo_a = 1"
  using reminder_latch [of noDate "Add 1000 None" "init\<lparr>newTitle := js ''x''\<rparr>"
      "Tick 1000" todo_a "todo_a\<lparr>reminderShown := Some True\<rparr>"
      "[Tick 1000, Toggle (js ''1''), Tick 2000, Toggle (js ''1''), Tick 3000]" todo_a]
  by (simp add: init_def todo_a_def addTodo_def Let_def trim_def is_ws_def js_def
      remind_entry_def due_now_def toggle_entry_def)

text \<open>
  Claim C2. On a monitor tick, every task that has a due date, is not flagged, is not
  completed and whose due date is at or before the clock reading gets \<open>reminderShown\<close>
  true, and the string "Reminder: " followed by its title is appended to the notification
  queue, in the order of the task list; every other task is left as it is and contributes
  no notification.
\<close>

theorem monitor_tick:
  "todos (checkReminders now s) =
     map (\<lambda>t. if due_now now t then t\<lparr>reminderShown := Some True\<rparr> else t) (todos s)
   \<and> notifications (checkReminders now s) =
       notifications s @ map (\<lambda>t. js ''Reminder: '' @ title t) (filter (due_now now) (todos s))
   \<and> due_now now t =
       ((\<exists>d. dueDate t = Some d \<and> date_le d (Date now)) \<and> reminderShown t \<noteq> Some True
         \<and> \<not> completed t)"
proof -
  have "concat (map (remind_notes now) ts) = map message (filter (due_now now) ts)" for ts
    by (induction ts) (simp_all add: remind_notes_def)
  then have "notifications (checkReminders now s) =
      notifications s @ map (\<lambda>t. js ''Reminder: '' @ title t) (filter (due_now now) (todos s))"
    by (simp add: notifications_checkReminders message_def)
  moreover have "todos (checkReminders now s) =
      map (\<lambda>t. if due_now now t then t\<lparr>reminderShown := Some True\<rparr> else t) (todos s)"
    by (simp add: todos_checkReminders remind_entry_def)
  moreover have "due_now now t =
       ((\<exists>d. dueDate t = Some d \<and> date_le d (Date now)) \<and> reminderShown t \<noteq> Some True
         \<and> \<not> completed t)"
    by (auto simp: due_now_def split: option.splits)
  ultimately show ?thesis by blast
qed

theorem monitor_tick_witness:
  "todos (checkReminders 1000 (init\<lparr>todos := [todo_a, todo_b]\<rparr>)) =
     [todo_a\<lparr>reminderShown := Some True\<rparr>, todo_b]
   \<and> notifications (checkReminders 1000 (init\<lparr>todos := [todo_a, todo_b]\<rparr>)) =
       [js ''Reminder: a'']"
  using monitor_tick [of 1000 "init\<lparr>todos := [todo_a, todo_b]\<rparr>" todo_a]
  by (simp add: init_def todo_a_def todo_b_def due_now_def js_def)

section \<open>Completion and reminders\<close>

text \<open>
  Claim C3, as amended. A completed task is left as it is by every monitor tick and
  contributes no notification, whatever its due date, for as long as it is not toggled
  again: along any sequence of events without a toggle of its identifier the task is either
  removed or unchanged, and its \<open>reminderShown\<close> never goes from not true to true. The
  first two conjuncts relate the tasks of a later state, and the queue after a tick, to the
  history of each task.

  The suppression is not permanent: toggling the task back makes it eligible again, and the
  next tick after its due date flags it and enqueues its reminder.
\<close>

theorem completed_suppresses:
  "todos (run mk es s) = List.map_filter (task_run es) (todos s) @ born mk es s
   \<and> notifications (checkReminders now s) =
       notifications s @ concat (map (remind_notes now) (todos s))
   \<and> (completed t \<and> Toggle (id_todo t) \<notin> set es \<longrightarrow>
        (task_run es t = None \<or> task_run es t = Some t) \<and> flips es t = 0
        \<and> remind_entry now t = t \<and> remind_notes now t = [])"
  using task_run_completed [of t es] remind_completed [of t now] todos_run [of mk es s]
    notifications_checkReminders [of now s] by blast

theorem completed_suppresses_witness:
  "completed (todo_b\<lparr>completed := True\<rparr>)
   \<and> Toggle (id_todo (todo_b\<lparr>completed := True\<rparr>))
        \<notin> set [Tick 6000, Toggle (js ''1''), Delete (js ''1''), Tick 7000]
   \<and> task_run [Tick 6000, Toggle (js ''1''), Delete (js ''1''), Tick 7000]
        (todo_b\<lparr>completed := True\<rparr>) = Some (todo_b\<lparr>completed := True\<rparr>)
   \<and> flips [Tick 6000, Toggle (js ''1''), Delete (js ''1''), Tick 7000]
        (todo_b\<lparr>completed := True\<rparr>) = 0
   \<and> remind_entry 8000 (todo_b\<lparr>completed := True\<rparr>) = todo_b\<lparr>completed := True\<rparr>
   \<and> remind_notes 8000 (todo_b\<lparr>completed := True\<rparr>) = []"
  using completed_suppresses [of noDate "[Tick 6000, Toggle (js ''1''), Delete (js ''1''), Tick 7000]"
      init 8000 "todo_b\<lparr>completed := True\<rparr>"]
  by (simp add: todo_b_def js_def toggle_entry_def remind_entry_def remind_notes_def due_now_def)

theorem completed_suppresses_counterexample:
  "map completed (todos (run noDate [Toggle (js ''2'')] (init\<lparr>todos := [todo_b]\<rparr>))) = [True]
   \<and> map reminderShown
        (todos (run noDate [Toggle (js ''2''), Toggle (js ''2''), Tick 6000]
           (init\<lparr>todos := [todo_b]\<rparr>))) = [Some True]
   \<and> notifications (run noDate [Toggle (js ''2''), Toggle (js ''2''), Tick 6000]
        (init\<lparr>todos := [todo_b]\<rparr>)) = [js ''Reminder: b'']"
  by (simp add: init_def todo_b_def js_def toggleTodo_def toggle_entry_def checkReminders_def
      due_now_def message_def)

section \<open>The notification queue\<close>

text \<open>
  Claim C4, as amended. At most one dismissal timeout is pending, and from the initial
  state one is pending exactly when the queue is not empty. When it runs it removes the
  front entry of the queue, and a new timeout of 5000 ms is started if entries remain;
  before it is due nothing is removed. A tick appends its messages at the back of the queue,
  and a tick that appends restarts the timeout at 5000 ms from that tick, whereas a tick that
  appends nothing leaves it alone. No other event touches the queue or the timeout. So an
  entry is removed 5000 ms after the last change of the queue that left it at the front, not
  5000 ms after its own insertion.
\<close>

theorem dismissal_timer:
  "((dismissTimer (run mk es init) = None) = (notifications (run mk es init) = []))
   \<and> (dismissTimer s = Some due \<and> due \<le> now \<longrightarrow>
        notifications (dismiss now s) = drop 1 (notifications s) \<and>
        dismissTimer (dismiss now s) =
          (if drop 1 (notifications s) = [] then None else Some (now + 5000)))
   \<and> ((\<forall>due. dismissTimer s = Some due \<longrightarrow> now < due) \<longrightarrow> dismiss now s = s)
   \<and> notifications (checkReminders now s) =
        notifications s @ map message (filter (due_now now) (todos s))
   \<and> dismissTimer (checkReminders now s) =
        (if filter (due_now now) (todos s) = [] then dismissTimer s else Some (now + 5000))
   \<and> ((\<forall>now. e \<noteq> Tick now \<and> e \<noteq> Dismiss now) \<longrightarrow>
        notifications (step mk e s) = notifications s \<and>
        dismissTimer (step mk e s) = dismissTimer s)"
proof -
  have "inv_timer init" by (simp add: inv_timer_def init_def)
  then have 1: "(dismissTimer (run mk es init) = None) = (notifications (run mk es init) = [])"
    using inv_timer_run [of init mk es] by (simp add: inv_timer_def)
  have 2: "dismissTimer s = Some due \<and> due \<le> now \<longrightarrow>
        notifications (dismiss now s) = drop 1 (notifications s) \<and>
        dismissTimer (dismiss now s) =
          (if drop 1 (notifications s) = [] then None else Some (now + 5000))"
    by (simp add: dismiss_def dismissEffect_def)
  have 3: "(\<forall>due. dismissTimer s = Some due \<longrightarrow> now < due) \<longrightarrow> dismiss now s = s"
    by (auto simp: dismiss_def split: option.splits)
  have c: "concat (map (remind_notes now) ts) = map message (filter (due_now now) ts)" for ts
    by (induction ts) (simp_all add: remind_notes_def)
  have 4: "notifications (checkReminders now s) =
        notifications s @ map message (filter (due_now now) (todos s))"
    by (simp add: notifications_checkReminders c)
  have 5: "dismissTimer (checkReminders now s) =
        (if filter (due_now now) (todos s) = [] then dismissTimer s else Some (now + 5000))"
    by (simp add: checkReminders_def checkReminders_map_eq c dismissEffect_def)
  show ?thesis using 1 2 3 4 5 step_queue_frame [of e mk s] by blast
qed

theorem dismissal_timer_witness:
  "dismissTimer (run noDate [Tick 3000] state_ab) = Some 8000 \<and> (8000::int) \<le> 8000
   \<and> notifications (dismiss 8000 (run noDate [Tick 3000] state_ab)) = [js ''Reminder: b'']
   \<and> dismissTimer (dismiss 8000 (run noDate [Tick 3000] state_ab)) = Some 13000
   \<and> dismiss 7999 (run noDate [Tick 3000] state_ab) = run noDate [Tick 3000] state_ab
   \<and> notifications (step noDate (Toggle (js ''1'')) (run noDate [Tick 3000] state_ab)) =
        [js ''Reminder: a'', js ''Reminder: b'']"
  using dismissal_timer [of noDate "[Tick 3000]" "run noDate [Tick 3000] state_ab" 8000 8000
      "Toggle (js ''1'')"]
    dismissal_timer [of noDate "[Tick 3000]" "run noDate [Tick 3000] state_ab" 8000 7999
      "Toggle (js ''1'')"]
  by (simp add: state_ab_def init_def todo_a_def todo_b_def js_def checkReminders_def
      due_now_def message_def dismiss_def dismissEffect_def toggleTodo_def)

theorem dismissal_timer_counterexample:
  "notifications (run noDate [Tick 3000] state_ab) = [js ''Reminder: a'', js ''Reminder: b'']
   \<and> notifications (run noDate [Tick 3000, Dismiss 8000] state_ab) = [js ''Reminder: b'']
   \<and> dismissTimer (run noDate [Tick 3000, Dismiss 8000] state_ab) = Some 13000
   \<and> notifications (run noDate [Tick 3000, Dismiss 8000, Dismiss 12999] state_ab) =
        [js ''Reminder: b'']
   \<and> notifications (run noDate [Tick 1000] state_ab) = [js ''Reminder: a'']
   \<and> dismissTimer (run noDate [Tick 1000, Tick 3000] state_ab) = Some 8000
   \<and> notifications (run noDate [Tick 1000, Tick 3000, Dismiss 6000, Dismiss 7999] state_ab) =
        [js ''Reminder: a'', js ''Reminder: b'']"
  by (simp add: state_ab_def init_def todo_a_def todo_b_def js_def checkReminders_def
      due_now_def message_def dismiss_def dismissEffect_def)

section \<open>Identifiers\<close>

text \<open>
  Claim C5. The identifier of a task is the decimal rendering of the clock reading at its
  creation. Identifiers are pairwise distinct as long as the clock readings of the adds are
  (\<open>ids_distinct_clock\<close>), but nothing keeps two adds from reading the same clock value:
  two tasks added at the same reading get the same identifier, and a toggle of that
  identifier then flips both.
\<close>

theorem duplicate_ids:
  "map id_todo (todos (run noDate
      [SetNewTitle (js ''x''), Add 1000 None, SetNewTitle (js ''y''), Add 1000 None] init)) =
     [js ''1000'', js ''1000'']
   \<and> map completed (todos (run noDate
      [SetNewTitle (js ''x''), Add 1000 None, SetNewTitle (js ''y''), Add 1000 None,
       Toggle (js ''1000'')] init)) = [True, True]"
  by (simp add: init_def js_def addTodo_def Let_def trim_def is_ws_def toString_def digits.simps
      toggleTodo_def toggle_entry_def)

section \<open>Adding a task\<close>

text \<open>
  Claim C6. \<open>addTodo\<close> gives the new task the tag list obtained from the tags input by
  splitting it on commas, trimming each piece and dropping the empty results, in the order
  of the input and with duplicates kept. Splitting is characterised by its inverse: joining
  the pieces with commas gives the input back, no piece contains a comma, and any
  non-empty list of comma-free pieces is the split of its join. Trimming removes a
  whitespace-only prefix and suffix and leaves a string that neither starts nor ends with
  whitespace. The input \<open>"a, ,b ,"\<close> yields the tags \<open>"a"\<close> and \<open>"b"\<close>.
\<close>

theorem tags_derivation:
  "(trim (newTitle s) \<noteq> [] \<longrightarrow>
      map tags (todos (addTodo mk now reply s)) =
        map tags (todos s) @ [filter (\<lambda>tag. tag \<noteq> []) (map trim (split_comma (newTags s)))])
   \<and> join_comma (split_comma raw) = raw
   \<and> (\<forall>p \<in> set (split_comma raw). 44 \<notin> set p)
   \<and> (ps \<noteq> [] \<and> (\<forall>p \<in> set ps. 44 \<notin> set p) \<longrightarrow> split_comma (join_comma ps) = ps)
   \<and> (\<exists>l r. piece = l @ trim piece @ r \<and> (\<forall>c \<in> set l. is_ws c) \<and> (\<forall>c \<in> set r. is_ws c))
   \<and> (trim piece \<noteq> [] \<longrightarrow> \<not> is_ws (hd (trim piece)) \<and> \<not> is_ws (last (trim piece)))
   \<and> parse_tags (js ''a, ,b ,'') = [js ''a'', js ''b'']"
proof -
  have "parse_tags (js ''a, ,b ,'') = [js ''a'', js ''b'']"
    by (simp add: parse_tags_def js_def trim_def is_ws_def)
  then show ?thesis
    using tags_addTodo [of s mk now reply] join_split [of raw] split_no_comma [of _ raw]
      split_join [of ps] trim_decompose [of piece] trim_ends [of piece]
    unfolding parse_tags_def by blast
qed

theorem tags_derivation_witness:
  "trim (newTitle state_tags) \<noteq> []
   \<and> map tags (todos (addTodo noDate 1000 None state_tags)) = [[js ''a'', js ''b'']]
   \<and> split_comma (js ''a, ,b ,'') = [js ''a'', js '' '', js ''b '', []]
   \<and> split_comma (join_comma [js ''b'', [], js ''a'', js ''b'']) = [js ''b'', [], js ''a'', js ''b'']
   \<and> trim (js '' b '') = js ''b''
   \<and> parse_tags (js ''b,a, b'') = [js ''b'', js ''a'', js ''b'']"
  using tags_derivation [of state_tags noDate 1000 None "js ''a, ,b ,''"
      "[js ''b'', [], js ''a'', js ''b'']" "js '' b ''"]
  by (simp add: state_tags_def init_def js_def trim_def is_ws_def parse_tags_def addTodo_def Let_def)

text \<open>
  Claim C7. The title trims to the empty string exactly when it is empty or consists of
  whitespace only, and then \<open>addTodo\<close> returns the state as it was: no task is created,
  the task list is unchanged and no input field is reset.
\<close>

theorem blank_title_noop:
  "(trim (newTitle s) = []) = (\<forall>c \<in> set (newTitle s). is_ws c)
   \<and> (trim (newTitle s) = [] \<longrightarrow>
        addTodo mk now reply s = s \<and> step mk (Add now reply) s = s)"
  using trim_Nil_iff [of "newTitle s"] by (simp add: addTodo_def)

theorem blank_title_noop_witness:
  "trim (newTitle state_blank) = []
   \<and> addTodo noDate 1000 (Some Granted) state_blank = state_blank
   \<and> addTodo noDate 1000 None init = init"
  using blank_title_noop [of state_blank noDate 1000 "Some Granted"]
    blank_title_noop [of init noDate 1000 None]
  by (simp add: state_blank_def init_def is_ws_def)

section \<open>Toggling and deleting\<close>

text \<open>
  Claim C8. \<open>toggleTodo\<close> keeps the length of the task list, flips \<open>completed\<close> at every
  position whose task has the given identifier and leaves the other positions as they are;
  when no task has the identifier the state is unchanged; nothing but the task list changes.
\<close>

theorem toggle_effect:
  "length (todos (toggleTodo i s)) = length (todos s)
   \<and> (k < length (todos s) \<longrightarrow>
        todos (toggleTodo i s) ! k =
          (if id_todo (todos s ! k) = i
           then (todos s ! k)\<lparr>completed := \<not> completed (todos s ! k)\<rparr>
           else todos s ! k))
   \<and> ((\<forall>t \<in> set (todos s). id_todo t \<noteq> i) \<longrightarrow> toggleTodo i s = s)
   \<and> toggleTodo i s = s\<lparr>todos := todos (toggleTodo i s)\<rparr>"
proof -
  have "(\<forall>t \<in> set ts. id_todo t \<noteq> i) \<longrightarrow> map (toggle_entry i) ts = ts" for ts
    by (induction ts) (simp_all add: toggle_entry_def)
  then have "(\<forall>t \<in> set (todos s). id_todo t \<noteq> i) \<longrightarrow> toggleTodo i s = s"
    by (simp add: toggleTodo_def)
  then show ?thesis by (simp add: toggleTodo_def toggle_entry_def)
qed

theorem toggle_effect_witness:
  "(1::nat) < length (todos state_ab)
   \<and> todos (toggleTodo (js ''2'') state_ab) = [todo_a, todo_b\<lparr>completed := True\<rparr>]
   \<and> toggleTodo (js ''3'') state_ab = state_ab"
  using toggle_effect [of "js ''2''" state_ab 1] toggle_effect [of "js ''3''" state_ab 0]
  by (simp add: state_ab_def init_def todo_a_def todo_b_def js_def toggleTodo_def toggle_entry_def)

text \<open>
  Claim C9. After \<open>deleteTodo\<close> no task of the list has the given identifier, every task
  with another identifier is still there, and when no task has the identifier the state is
  unchanged; nothing but the task list changes. A task with the identifier has no
  successor after the deletion, whatever events follow: the task list of every later state,
  which is what a monitor tick evaluates and what is displayed, consists of the successors
  of the remaining tasks and of the tasks created later.
\<close>

theorem delete_effect:
  "(\<forall>t \<in> set (todos (deleteTodo i s)). id_todo t \<noteq> i)
   \<and> (\<forall>t \<in> set (todos s). id_todo t \<noteq> i \<longrightarrow> t \<in> set (todos (deleteTodo i s)))
   \<and> ((\<forall>t \<in> set (todos s). id_todo t \<noteq> i) \<longrightarrow> deleteTodo i s = s)
   \<and> deleteTodo i s = s\<lparr>todos := todos (deleteTodo i s)\<rparr>
   \<and> (id_todo t = i \<longrightarrow> task_run (Delete i # es) t = None)
   \<and> todos (run mk (Delete i # es) s) =
        List.map_filter (task_run es) (filter (\<lambda>t. id_todo t \<noteq> i) (todos s))
          @ born mk es (deleteTodo i s)"
proof -
  have "(\<forall>t \<in> set ts. id_todo t \<noteq> i) \<longrightarrow> filter (\<lambda>t. id_todo t \<noteq> i) ts = ts" for ts
    by (induction ts) simp_all
  then have 1: "(\<forall>t \<in> set (todos s). id_todo t \<noteq> i) \<longrightarrow> deleteTodo i s = s"
    by (simp add: deleteTodo_def)
  have 2: "todos (run mk (Delete i # es) s) =
        List.map_filter (task_run es) (filter (\<lambda>t. id_todo t \<noteq> i) (todos s))
          @ born mk es (deleteTodo i s)"
    using todos_run [of mk es "deleteTodo i s"] by (simp add: deleteTodo_def)
  show ?thesis using 1 2 by (simp add: deleteTodo_def)
qed

theorem delete_effect_witness:
  "todos (deleteTodo (js ''1'') state_ab) = [todo_b]
   \<and> deleteTodo (js ''3'') state_ab = state_ab
   \<and> id_todo todo_a = js ''1''
   \<and> task_run [Delete (js ''1''), Tick 1000] todo_a = None
   \<and> todos (run noDate [Delete (js ''1''), Tick 3000] state_ab) =
        [todo_b\<lparr>reminderShown := Some True\<rparr>]
   \<and> notifications (run noDate [Delete (js ''1''), Tick 3000] state_ab) = [js ''Reminder: b'']"
  using delete_effect [of "js ''1''" state_ab todo_a "[Tick 3000]" noDate]
    delete_effect [of "js ''3''" state_ab todo_a "[Tick 1000]" noDate]
  by (simp add: state_ab_def init_def todo_a_def todo_b_def js_def deleteTodo_def
      checkReminders_def due_now_def message_def)

text \<open>
  Claim C10. \<open>toggleTodo\<close> leaves the identifier, title, tags, colour, due date and
  \<open>reminderShown\<close> of every task as they are, in the same order, and leaves every task
  with another identifier entirely unchanged; \<open>deleteTodo\<close> keeps exactly the tasks with
  another identifier, unchanged and in their order. Neither changes anything but the task
  list.
\<close>

theorem toggle_delete_frame:
  "map id_todo (todos (toggleTodo i s)) = map id_todo (todos s)
   \<and> map title (todos (toggleTodo i s)) = map title (todos s)
   \<and> map tags (todos (toggleTodo i s)) = map tags (todos s)
   \<and> map color (todos (toggleTodo i s)) = map color (todos s)
   \<and> map dueDate (todos (toggleTodo i s)) = map dueDate (todos s)
   \<and> map reminderShown (todos (toggleTodo i s)) = map reminderShown (todos s)
   \<and> (k < length (todos s) \<and> id_todo (todos s ! k) \<noteq> i \<longrightarrow>
        todos (toggleTodo i s) ! k = todos s ! k)
   \<and> filter (\<lambda>t. id_todo t \<noteq> i) (todos (toggleTodo i s)) =
        filter (\<lambda>t. id_todo t \<noteq> i) (todos s)
   \<and> todos (deleteTodo i s) = filter (\<lambda>t. id_todo t \<noteq> i) (todos s)
   \<and> subseq (todos (deleteTodo i s)) (todos s)
   \<and> toggleTodo i s = s\<lparr>todos := todos (toggleTodo i s)\<rparr>
   \<and> deleteTodo i s = s\<lparr>todos := todos (deleteTodo i s)\<rparr>"
proof -
  have f: "filter (\<lambda>t. id_todo t \<noteq> i) (map (toggle_entry i) ts) = filter (\<lambda>t. id_todo t \<noteq> i) ts"
    for ts by (induction ts) (simp_all add: toggle_entry_def)
  have m: "map id_todo (map (toggle_entry i) ts) = map id_todo ts"
    "map title (map (toggle_entry i) ts) = map title ts"
    "map tags (map (toggle_entry i) ts) = map tags ts"
    "map color (map (toggle_entry i) ts) = map color ts"
    "map dueDate (map (toggle_entry i) ts) = map dueDate ts"
    "map reminderShown (map (toggle_entry i) ts) = map reminderShown ts" for ts
    by (induction ts) (simp_all add: toggle_entry_def)
  have n: "k < length (todos s) \<and> id_todo (todos s ! k) \<noteq> i \<longrightarrow>
        todos (toggleTodo i s) ! k = todos s ! k"
    by (simp add: toggleTodo_def toggle_entry_def)
  show ?thesis using n by (simp add: toggleTodo_def deleteTodo_def f m del: map_map)
qed

theorem toggle_delete_frame_witness:
  "(0::nat) < length (todos state_ab) \<and> id_todo (todos state_ab ! 0) \<noteq> js ''2''
   \<and> todos (toggleTodo (js ''2'') state_ab) ! 0 = todo_a
   \<and> todos (deleteTodo (js ''1'') state_ab) = [todo_b]"
  using toggle_delete_frame [of "js ''2''" state_ab 0] toggle_delete_frame [of "js ''1''" state_ab 0]
  by (simp add: state_ab_def init_def todo_a_def todo_b_def js_def toggleTodo_def toggle_entry_def
      deleteTodo_def)

end
